theory Spec2Isabelle
  imports
    Complex_Main
    "HOL-Library.Char_ord"
    "HOL-Library.List_Lexorder"
    "HOL-Library.Log_Nat"
    "HOL-Library.Multiset"
    "HOL-Library.Product_Lexorder"
begin

section \<open>Python floats: the type of \<open>Expense.amount\<close>\<close>

text \<open>
  \<^verbatim>\<open>amount = db.Column(db.Float, nullable=False)\<close> holds a Python float, an IEEE 754
  binary64 number. A finite float is the rational number it denotes (\<open>Finite q\<close>; the two
  zeros \<open>0.0\<close> and \<open>-0.0\<close>, which Python's \<open>==\<close> and truth test do not distinguish, are
  both \<open>Finite 0\<close>); the other values are the two infinities and NaN. Only the values
  \<open>Finite q\<close> with \<open>q\<close> representable in binary64 are floats; every operation below maps
  floats to floats.
\<close>

datatype double = Finite rat | PInf | NInf | NaN

text \<open>\<open>pow2 e\<close> is \<open>2\<close> to the (possibly negative) power \<open>e\<close>.\<close>

definition pow2 :: "int \<Rightarrow> rat" where
  "pow2 e = (if 0 \<le> e then 2 ^ nat e else 1 / 2 ^ nat (- e))"

text \<open>\<open>ilog2 q\<close> is the binary exponent \<open>\<lfloor>log\<^sub>2 q\<rfloor>\<close> of a positive rational.\<close>

definition ilog2 :: "rat \<Rightarrow> int" where
  "ilog2 q = (if 1 \<le> q then bitlen \<lfloor>q\<rfloor> - 1 else - bitlen (\<lceil>1 / q\<rceil> - 1))"

text \<open>Rounding to the nearest integer, ties to the even one.\<close>

definition round_half_even :: "rat \<Rightarrow> int" where
  "round_half_even x =
     (let f = \<lfloor>x\<rfloor>; d = x - of_int f
      in if d < 1 / 2 then f
         else if 1 / 2 < d then f + 1
         else if even f then f else f + 1)"

text \<open>
  \<open>round64 q\<close> is the binary64 number nearest to \<open>q\<close> (round-to-nearest, ties-to-even, the
  rounding mode Python uses): 53 significant bits, the unit in the last place no smaller than
  \<open>2\<^sup>-\<^sup>1\<^sup>0\<^sup>7\<^sup>4\<close> (subnormal numbers), and an infinity once the rounded magnitude
  reaches \<open>2\<^sup>1\<^sup>0\<^sup>2\<^sup>4\<close>.
\<close>

definition round64 :: "rat \<Rightarrow> double" where
  "round64 q =
     (if q = 0 then Finite 0
      else
        let e = max (ilog2 \<bar>q\<bar> - 52) (- 1074);
            r = of_int (round_half_even (q / pow2 e)) * pow2 e
        in if pow2 1024 \<le> \<bar>r\<bar> then (if 0 < q then PInf else NInf) else Finite r)"

text \<open>Python's \<open>x + y\<close> on floats.\<close>

fun fadd :: "double \<Rightarrow> double \<Rightarrow> double" where
  "fadd NaN _ = NaN"
| "fadd _ NaN = NaN"
| "fadd PInf NInf = NaN"
| "fadd NInf PInf = NaN"
| "fadd PInf _ = PInf"
| "fadd _ PInf = PInf"
| "fadd NInf _ = NInf"
| "fadd _ NInf = NInf"
| "fadd (Finite x) (Finite y) = round64 (x + y)"

text \<open>
  The sum of a sequence of floats, added from left to right; the sum of no floats is \<open>0\<close>.
\<close>

fun sum_amounts :: "double list \<Rightarrow> double" where
  "sum_amounts [] = Finite 0"
| "sum_amounts (x # xs) = foldl fadd x xs"

text \<open>
  \<open>grid g n\<close> is \<open>n\<close> units of \<open>2\<^sup>g\<close>: the whole numbers for \<open>g = 0\<close>, the quarters for
  \<open>g = -2\<close>. It is a float while \<open>n\<close> has at most 53 bits and \<open>g\<close> is an exponent of the
  format.
\<close>

definition grid :: "int \<Rightarrow> int \<Rightarrow> double" where
  "grid g n = Finite (of_int n * pow2 g)"


section \<open>Python dictionaries\<close>

text \<open>
  A Python \<open>dict\<close> keeps its items in insertion order and holds each key once: an
  association list. \<open>contains d k\<close> is \<open>k in d\<close>, \<open>getitem d k\<close> is \<open>d[k]\<close> (\<open>None\<close>
  where Python raises \<open>KeyError\<close>), and \<open>setitem d k v\<close> is \<open>d[k] = v\<close>: the value of an
  existing key is replaced where it stands, a new key goes to the end.
\<close>

type_synonym ('k, 'v) dict = "('k \<times> 'v) list"

definition dict_keys :: "('k, 'v) dict \<Rightarrow> 'k list" where
  "dict_keys d = map fst d"

definition dict_values :: "('k, 'v) dict \<Rightarrow> 'v list" where
  "dict_values d = map snd d"

definition contains :: "('k, 'v) dict \<Rightarrow> 'k \<Rightarrow> bool" where
  "contains d k = (k \<in> set (dict_keys d))"

definition getitem :: "('k, 'v) dict \<Rightarrow> 'k \<Rightarrow> 'v option" where
  "getitem d k = map_of d k"

fun setitem :: "('k, 'v) dict \<Rightarrow> 'k \<Rightarrow> 'v \<Rightarrow> ('k, 'v) dict" where
  "setitem [] k v = [(k, v)]"
| "setitem ((k', v') # d) k v =
     (if k' = k then (k, v) # d else (k', v') # setitem d k v)"

section \<open>Dates\<close>

text \<open>
  A \<open>datetime\<close> value. Python keeps \<open>1 \<le> year \<le> 9999\<close>, \<open>1 \<le> month \<le> 12\<close> and the day
  within the month; \<open>valid_datetime\<close> states the part of this that formatting needs.
\<close>

record datetime =
  year :: nat
  month :: nat
  day :: nat
  hour :: nat
  minute :: nat
  second :: nat
  microsecond :: nat

definition valid_datetime :: "datetime \<Rightarrow> bool" where
  "valid_datetime d =
     (1 \<le> year d \<and> year d \<le> 9999 \<and> 1 \<le> month d \<and> month d \<le> 12 \<and>
      1 \<le> day d \<and> day d \<le> 31)"

text \<open>Dates are compared field by field, the year first.\<close>

definition date_key :: "datetime \<Rightarrow> nat \<times> nat \<times> nat \<times> nat \<times> nat \<times> nat \<times> nat" where
  "date_key d = (year d, month d, day d, hour d, minute d, second d, microsecond d)"

text \<open>
  \<open>strftime\<close> with the formats the program uses. \<open>%m\<close> and \<open>%d\<close> are the month and the
  day in two digits, padded with a zero. \<open>%Y\<close> is the year as the C library prints it,
  in decimal without padding: four digits from the year 1000 on, fewer before
  (\<open>999-01-05\<close> for the fifth of January 999).
\<close>

definition digit_char :: "nat \<Rightarrow> char" where
  "digit_char n = char_of (48 + n)"

fun digits :: "nat \<Rightarrow> string" where
  "digits n = (if n < 10 then [digit_char n] else digits (n div 10) @ [digit_char (n mod 10)])"

declare digits.simps [simp del]

definition zero_pad :: "nat \<Rightarrow> nat \<Rightarrow> string" where
  "zero_pad w n = replicate (w - length (digits n)) (CHR ''0'') @ digits n"

definition strftime_Ym :: "datetime \<Rightarrow> string" where
  "strftime_Ym d = digits (year d) @ ''-'' @ zero_pad 2 (month d)"

definition strftime_Ymd :: "datetime \<Rightarrow> string" where
  "strftime_Ymd d =
     digits (year d) @ ''-'' @ zero_pad 2 (month d) @ ''-'' @ zero_pad 2 (day d)"

section \<open>The database model\<close>

text \<open>
  \<^verbatim>\<open>class Expense(db.Model)\<close>: one row of the table. \<open>description\<close> is the only nullable
  column. The database is the list of its rows in the order a query without \<open>ORDER BY\<close>
  returns them, which is the order of insertion (SQLite scans the table by row id).
\<close>

record expense =
  expense_id :: int
  amount :: double
  category :: string
  date :: datetime
  description :: "string option"

type_synonym db = "expense list"

datatype error =
  ValueError | BadRequestKeyError | NotFound | KeyError | OverflowError | IntegrityError

text \<open>
  The primary key is an \<open>INTEGER\<close> of SQLite, a signed 64-bit number; the driver raises
  \<open>OverflowError\<close> when it is given another Python integer to bind.
\<close>

definition sqlite_integer :: "int \<Rightarrow> bool" where
  "sqlite_integer i = (- (2 ^ 63) \<le> i \<and> i < 2 ^ 63)"

text \<open>\<open>Expense.query.all()\<close> and \<open>Expense.query.count()\<close>.\<close>

definition query_all :: "db \<Rightarrow> expense list" where
  "query_all rows = rows"

definition query_count :: "db \<Rightarrow> nat" where
  "query_count rows = length rows"

text \<open>
  \<open>Expense.query.order_by(Expense.date.desc())\<close>: newest first. SQL leaves the order of
  rows with equal dates open.
\<close>

definition order_by_date_desc :: "db \<Rightarrow> expense list" where
  "order_by_date_desc rows = rev (sort_key (\<lambda>e. date_key (date e)) rows)"

text \<open>
  \<open>db.session.query(db.func.sum(Expense.amount)).scalar()\<close>: SQL's \<open>SUM\<close> is \<open>NULL\<close> over
  no rows. Over some rows it is the sum of the column as the database engine adds it: the
  order and the method of its float additions are the engine's own (SQLite added from left
  to right up to version 3.43 and adds with a correction term since), so they are the
  parameter \<open>engine_sum\<close>. SQLite has no NaN: a sum that is not a number is returned as
  \<open>NULL\<close>.
\<close>

definition func_sum_amount :: "(double list \<Rightarrow> double) \<Rightarrow> db \<Rightarrow> double option" where
  "func_sum_amount engine_sum rows =
     (if rows = [] then None
      else (case engine_sum (map amount rows) of NaN \<Rightarrow> None | s \<Rightarrow> Some s))"

text \<open>
  \<open>db.session.add(new_expense); db.session.commit()\<close>: the row is stored under a fresh
  primary key, one more than the largest in the table (\<open>1\<close> in an empty table). A NaN is
  bound as \<open>NULL\<close>, which the \<open>NOT NULL\<close> column \<open>amount\<close> refuses: the commit raises
  \<open>IntegrityError\<close> and nothing is stored.
\<close>

definition next_id :: "db \<Rightarrow> int" where
  "next_id rows = (case map expense_id rows of [] \<Rightarrow> 1 | i # ids \<Rightarrow> fold max ids i + 1)"

definition session_add :: "db \<Rightarrow> expense \<Rightarrow> error + db" where
  "session_add rows new_expense =
     (if amount new_expense = NaN then Inl IntegrityError
      else Inr (rows @ [new_expense\<lparr>expense_id := next_id rows\<rparr>]))"

text \<open>
  \<open>Expense.query.get_or_404(id)\<close>: the row with this primary key, or the HTTP error 404.
  The id of the route \<open>/delete/<int:id>\<close> is any number of digits: one that is no SQLite
  integer makes the query raise when it is bound, before any row is looked up.
\<close>

definition get_or_404 :: "db \<Rightarrow> int \<Rightarrow> error + expense" where
  "get_or_404 rows i =
     (if sqlite_integer i then
        (case find (\<lambda>e. expense_id e = i) rows of None \<Rightarrow> Inl NotFound | Some e \<Rightarrow> Inr e)
      else Inl OverflowError)"

text \<open>
  \<open>db.session.delete(expense); db.session.commit()\<close>: \<open>DELETE FROM expense WHERE id = ?\<close>
  with the primary key of the object.
\<close>

definition session_delete :: "db \<Rightarrow> expense \<Rightarrow> db" where
  "session_delete rows expense = filter (\<lambda>e. expense_id e \<noteq> expense_id expense) rows"

section \<open>The dashboard's aggregation\<close>

text \<open>
  The statement the loop of \<open>dashboard\<close> runs for each of its two dictionaries:
  \<^verbatim>\<open>
  if key in d:
      d[key] += amount
  else:
      d[key] = amount
  \<close>
\<close>

definition add_to :: "(string, double) dict \<Rightarrow> string \<Rightarrow> double \<Rightarrow> (string, double) dict" where
  "add_to d k a =
     (case getitem d k of
        Some v \<Rightarrow> setitem d k (fadd v a)
      | None \<Rightarrow> setitem d k a)"

text \<open>
  The body of \<^verbatim>\<open>for expense in expenses\<close>, on the pair of \<open>categories\<close> and
  \<open>monthly_data\<close>, and the loop from the two empty dictionaries.
\<close>

fun dashboard_step ::
  "(string, double) dict \<times> (string, double) dict \<Rightarrow> expense \<Rightarrow>
   (string, double) dict \<times> (string, double) dict" where
  "dashboard_step (categories, monthly_data) expense =
     (let categories' = add_to categories (category expense) (amount expense);
          month_key = strftime_Ym (date expense);
          monthly_data' = add_to monthly_data month_key (amount expense)
      in (categories', monthly_data'))"

definition dashboard_loop ::
  "expense list \<Rightarrow> (string, double) dict \<times> (string, double) dict" where
  "dashboard_loop expenses = foldl dashboard_step ([], []) expenses"

definition categories :: "expense list \<Rightarrow> (string, double) dict" where
  "categories expenses = fst (dashboard_loop expenses)"

definition monthly_data :: "expense list \<Rightarrow> (string, double) dict" where
  "monthly_data expenses = snd (dashboard_loop expenses)"

text \<open>
  \<^verbatim>\<open>sorted_months = sorted(monthly_data.keys())\<close>: Python orders strings by their
  characters, the first difference deciding, which is the order of \<open>string\<close> here.
\<close>

definition sorted_months :: "(string, double) dict \<Rightarrow> string list" where
  "sorted_months md = sort (dict_keys md)"

text \<open>\<^verbatim>\<open>monthly_values = [monthly_data[month] for month in sorted_months]\<close>\<close>

fun monthly_values :: "(string, double) dict \<Rightarrow> string list \<Rightarrow> error + double list" where
  "monthly_values md [] = Inr []"
| "monthly_values md (m # months) =
     (case getitem md m of
        None \<Rightarrow> Inl KeyError
      | Some v \<Rightarrow> (case monthly_values md months of Inl e \<Rightarrow> Inl e | Inr vs \<Rightarrow> Inr (v # vs)))"

text \<open>
  The chart helpers. Drawing the figure and encoding it (\<open>matplotlib\<close>, \<open>base64\<close>) is the
  parameter \<open>draw\<close>, which may raise; \<open>None\<close> is returned before anything is drawn.
\<close>

definition generate_pie_chart ::
  "((string, double) dict \<Rightarrow> error + string) \<Rightarrow> (string, double) dict \<Rightarrow> error + string option" where
  "generate_pie_chart draw cats =
     (if cats = [] then Inr None
      else (case draw cats of Inl e \<Rightarrow> Inl e | Inr chart_url \<Rightarrow> Inr (Some chart_url)))"

definition generate_line_chart ::
  "(string list \<Rightarrow> double list \<Rightarrow> error + string) \<Rightarrow> string list \<Rightarrow> double list \<Rightarrow>
   error + string option" where
  "generate_line_chart draw months vals =
     (if months = [] then Inr None
      else (case draw months vals of Inl e \<Rightarrow> Inl e | Inr chart_url \<Rightarrow> Inr (Some chart_url)))"

section \<open>The request handlers\<close>

text \<open>
  A handler takes the database and returns its response, or the exception that leaves it
  (which the framework turns into an error page), and the database after the request.
  The rows passed to \<open>csv.writer\<close> are the content of the export: a cell is a string, \<open>None\<close>
  or a float.
\<close>

datatype cell = Str string | NoneCell | Num double

datatype response =
    IndexPage double nat "expense list"
  | AddExpensePage
  | DashboardPage "string option" "string option" "(string, double) dict"
  | ExpensesPage "expense list"
  | Redirect string "string \<times> string"
  | SendFile "cell list list" string string

datatype http_method = GET | POST

record request =
  http_method :: http_method
  form :: "(string \<times> string) list"

text \<open>
  \<^verbatim>\<open>total_expenses = db.session.query(db.func.sum(Expense.amount)).scalar() or 0\<close>:
  Python's \<open>x or 0\<close> is \<open>0\<close> when \<open>x\<close> is \<open>None\<close> or a zero, and \<open>x\<close> otherwise (the integer
  \<open>0\<close> it returns is written as the float \<open>0\<close>, to which it is equal).
\<close>

definition or_0 :: "double option \<Rightarrow> double" where
  "or_0 x = (case x of None \<Rightarrow> Finite 0 | Some s \<Rightarrow> if s = Finite 0 then Finite 0 else s)"

definition total_expenses :: "(double list \<Rightarrow> double) \<Rightarrow> db \<Rightarrow> double" where
  "total_expenses engine_sum rows = or_0 (func_sum_amount engine_sum rows)"

definition index :: "(double list \<Rightarrow> double) \<Rightarrow> db \<Rightarrow> (error + response) \<times> db" where
  "index engine_sum rows =
     (let expenses_count = query_count rows;
          recent_expenses = take 5 (order_by_date_desc rows)
      in (Inr (IndexPage (total_expenses engine_sum rows) expenses_count recent_expenses),
          rows))"

text \<open>
  \<open>add_expense\<close>. \<open>float\<close> and \<open>datetime.strptime(_, '%Y-%m-%d')\<close> are the parameters
  \<open>py_float\<close> and \<open>strptime\<close>, \<open>None\<close> where they raise \<open>ValueError\<close>;
  \<open>request.form[key]\<close> raises when the key is missing. \<open>new_expense\<close> is the object built
  from the form, in the order the handler reads it; its primary key is set when it is stored.
\<close>

definition new_expense ::
  "(string \<Rightarrow> double option) \<Rightarrow> (string \<Rightarrow> datetime option) \<Rightarrow> request \<Rightarrow> error + expense" where
  "new_expense py_float strptime req =
     (case map_of (form req) ''amount'' of
        None \<Rightarrow> Inl BadRequestKeyError
      | Some amount_field \<Rightarrow>
     (case py_float amount_field of
        None \<Rightarrow> Inl ValueError
      | Some amount_v \<Rightarrow>
     (case map_of (form req) ''category'' of
        None \<Rightarrow> Inl BadRequestKeyError
      | Some category_v \<Rightarrow>
     (case map_of (form req) ''date'' of
        None \<Rightarrow> Inl BadRequestKeyError
      | Some date_field \<Rightarrow>
     (case strptime date_field of
        None \<Rightarrow> Inl ValueError
      | Some date_v \<Rightarrow>
     (case map_of (form req) ''description'' of
        None \<Rightarrow> Inl BadRequestKeyError
      | Some description_v \<Rightarrow>
          Inr \<lparr>expense_id = 0, amount = amount_v, category = category_v, date = date_v,
               description = Some description_v\<rparr>))))))"

definition add_expense ::
  "(string \<Rightarrow> double option) \<Rightarrow> (string \<Rightarrow> datetime option) \<Rightarrow> request \<Rightarrow> db \<Rightarrow>
   (error + response) \<times> db" where
  "add_expense py_float strptime req rows =
     (if http_method req = POST then
        (case new_expense py_float strptime req of
           Inl e \<Rightarrow> (Inl e, rows)
         | Inr expense \<Rightarrow>
             (case session_add rows expense of
                Inl e \<Rightarrow> (Inl e, rows)
              | Inr rows' \<Rightarrow>
                  (Inr (Redirect ''index'' (''Expense added successfully!'', ''success'')),
                   rows')))
      else (Inr AddExpensePage, rows))"

definition dashboard ::
  "((string, double) dict \<Rightarrow> error + string) \<Rightarrow>
   (string list \<Rightarrow> double list \<Rightarrow> error + string) \<Rightarrow> db \<Rightarrow> (error + response) \<times> db" where
  "dashboard draw_pie draw_line rows =
     (let expenses = query_all rows;
          (cats, md) = dashboard_loop expenses;
          months = sorted_months md
      in (case monthly_values md months of
           Inl e \<Rightarrow> (Inl e, rows)
         | Inr vals \<Rightarrow>
           (case generate_pie_chart draw_pie cats of
              Inl e \<Rightarrow> (Inl e, rows)
            | Inr category_chart \<Rightarrow>
              (case generate_line_chart draw_line months vals of
                 Inl e \<Rightarrow> (Inl e, rows)
               | Inr monthly_chart \<Rightarrow>
                 (Inr (DashboardPage category_chart monthly_chart cats), rows)))))"


definition delete_expense :: "int \<Rightarrow> db \<Rightarrow> (error + response) \<times> db" where
  "delete_expense i rows =
     (case get_or_404 rows i of
        Inl e \<Rightarrow> (Inl e, rows)
      | Inr expense \<Rightarrow>
          (Inr (Redirect ''view_expenses'' (''Expense deleted successfully!'', ''success'')),
           session_delete rows expense))"

text \<open>
  \<open>export_csv\<close>: the header row, then one \<open>writerow\<close> for each expense of
  \<open>Expense.query.all()\<close>. The currency sign of the header is written in UTF-8.
\<close>

definition csv_header :: "cell list" where
  "csv_header =
     [Str ''Date'', Str ''Category'', Str ''Description'',
      Str (''Amount ('' @ [char_of (0xE2 :: nat), char_of (0x82 :: nat), char_of (0xB9 :: nat)] @ '')'')]"

definition csv_row :: "expense \<Rightarrow> cell list" where
  "csv_row expense =
     [Str (strftime_Ymd (date expense)),
      Str (category expense),
      (case description expense of None \<Rightarrow> NoneCell | Some s \<Rightarrow> Str s),
      Num (amount expense)]"

definition export_rows :: "db \<Rightarrow> cell list list" where
  "export_rows rows = csv_header # map csv_row (query_all rows)"

definition export_csv :: "db \<Rightarrow> (error + response) \<times> db" where
  "export_csv rows = (Inr (SendFile (export_rows rows) ''expenses.csv'' ''text/csv''), rows)"

section \<open>Notions the properties are stated with\<close>

text \<open>
  One dictionary of the loop taken alone: the statement of the loop for the key \<open>key\<close>,
  from the empty dictionary.
\<close>

definition accumulate :: "(expense \<Rightarrow> string) \<Rightarrow> expense list \<Rightarrow> (string, double) dict" where
  "accumulate key expenses = foldl (\<lambda>d e. add_to d (key e) (amount e)) [] expenses"

text \<open>The elements of a list in the order of their first occurrence.\<close>

primrec first_occurrences :: "'a list \<Rightarrow> 'a list" where
  "first_occurrences [] = []"
| "first_occurrences (x # xs) = x # removeAll x (first_occurrences xs)"

text \<open>
  Amounts on which float addition does not round: multiples of one unit \<open>2\<^sup>g\<close> (whole
  numbers for \<open>g = 0\<close>, halves, quarters, ... for negative \<open>g\<close>) whose magnitudes add up to
  at most \<open>2\<^sup>5\<^sup>3\<close> units, so that every partial sum is a multiple of the unit that a float
  holds exactly. \<open>g\<close> ranges over the exponents for which \<open>2\<^sup>5\<^sup>3\<close> units are a float.
\<close>

fun units_of :: "int \<Rightarrow> double \<Rightarrow> int" where
  "units_of g (Finite q) = \<lfloor>q / pow2 g\<rfloor>"
| "units_of g _ = 0"

fun on_grid :: "int \<Rightarrow> double \<Rightarrow> bool" where
  "on_grid g (Finite q) = (of_int \<lfloor>q / pow2 g\<rfloor> * pow2 g = q)"
| "on_grid g _ = False"

definition exactly_summable :: "int \<Rightarrow> expense list \<Rightarrow> bool" where
  "exactly_summable g expenses =
     (- 1074 \<le> g \<and> g \<le> 970 \<and>
      list_all (\<lambda>e. on_grid g (amount e)) expenses \<and>
      sum_list (map (\<lambda>e. \<bar>units_of g (amount e)\<bar>) expenses) \<le> 2 ^ 53)"

text \<open>Reading decimal digits, and the two date formats as sets of strings.\<close>

definition is_digit :: "char \<Rightarrow> bool" where
  "is_digit c = (CHR ''0'' \<le> c \<and> c \<le> CHR ''9'')"

definition digit_val :: "char \<Rightarrow> nat" where
  "digit_val c = of_char c - 48"

fun number_from :: "nat \<Rightarrow> string \<Rightarrow> nat" where
  "number_from acc [] = acc"
| "number_from acc (c # cs) = number_from (10 * acc + digit_val c) cs"

definition number :: "string \<Rightarrow> nat" where
  "number cs = number_from 0 cs"


definition valid_month_key :: "string \<Rightarrow> bool" where
  "valid_month_key k =
     (length k = 7 \<and> list_all is_digit (take 4 k) \<and> k ! 4 = CHR ''-'' \<and>
      list_all is_digit (drop 5 k) \<and> 1 \<le> number (drop 5 k) \<and> number (drop 5 k) \<le> 12)"

text \<open>The year and the month a month key stands for; pairs are ordered year first.\<close>

definition month_of_key :: "string \<Rightarrow> nat \<times> nat" where
  "month_of_key k = (number (take 4 k), number (drop 5 k))"

text \<open>Expenses and dates written out, for the examples.\<close>

abbreviation on_day :: "nat \<Rightarrow> nat \<Rightarrow> nat \<Rightarrow> datetime" where
  "on_day y m d \<equiv>
     \<lparr>year = y, month = m, day = d, hour = 0, minute = 0, second = 0, microsecond = 0\<rparr>"

abbreviation spent :: "int \<Rightarrow> double \<Rightarrow> string \<Rightarrow> datetime \<Rightarrow> expense" where
  "spent i a c d \<equiv>
     \<lparr>expense_id = i, amount = a, category = c, date = d, description = Some ''''\<rparr>"

section \<open>Dictionaries and the aggregation loop\<close>

text \<open>
  \<open>add_to\<close> tests \<open>key in d\<close> by looking the key up: the key is in the dictionary exactly
  when the lookup finds a value.
\<close>

lemma contains_iff_getitem: "contains d k \<longleftrightarrow> getitem d k \<noteq> None"
  by (simp add: contains_def getitem_def dict_keys_def map_of_eq_None_iff)

lemma map_of_setitem: "map_of (setitem d k v) = (map_of d)(k \<mapsto> v)"
  by (induction d) (auto simp: fun_eq_iff)

lemma keys_setitem:
  "dict_keys (setitem d k v) =
     (if k \<in> set (dict_keys d) then dict_keys d else dict_keys d @ [k])"
  by (induction d) (force simp: dict_keys_def)+

lemma getitem_add_to:
  "getitem (add_to d k a) k' =
     (if k' = k then (case getitem d k of Some v \<Rightarrow> Some (fadd v a) | None \<Rightarrow> Some a)
      else getitem d k')"
  by (simp add: add_to_def getitem_def map_of_setitem split: option.splits)

lemma keys_add_to:
  "dict_keys (add_to d k a) =
     (if k \<in> set (dict_keys d) then dict_keys d else dict_keys d @ [k])"
  by (simp add: add_to_def keys_setitem split: option.splits)

text \<open>The loop fills its two dictionaries independently of each other.\<close>

lemma dashboard_loop_split:
  "foldl dashboard_step (c, m) es =
     (foldl (\<lambda>d e. add_to d (category e) (amount e)) c es,
      foldl (\<lambda>d e. add_to d (strftime_Ym (date e)) (amount e)) m es)"
  by (induction es arbitrary: c m) (simp_all add: Let_def)

lemma categories_accumulate: "categories es = accumulate category es"
  by (simp add: categories_def dashboard_loop_def dashboard_loop_split accumulate_def)

lemma monthly_data_accumulate:
  "monthly_data es = accumulate (\<lambda>e. strftime_Ym (date e)) es"
  by (simp add: monthly_data_def dashboard_loop_def dashboard_loop_split accumulate_def)

lemma accumulate_snoc:
  "accumulate key (es @ [e]) = add_to (accumulate key es) (key e) (amount e)"
  by (simp add: accumulate_def)

lemma set_first_occurrences [simp]: "set (first_occurrences xs) = set xs"
  by (induction xs) auto

lemma distinct_first_occurrences [simp]: "distinct (first_occurrences xs)"
  by (induction xs) (auto simp: distinct_removeAll)

lemma first_occurrences_snoc:
  "first_occurrences (xs @ [x]) =
     (if x \<in> set xs then first_occurrences xs else first_occurrences xs @ [x])"
  by (induction xs) auto

lemma keys_accumulate: "dict_keys (accumulate key es) = first_occurrences (map key es)"
proof (induction es rule: rev_induct)
  case Nil
  show ?case by (simp add: accumulate_def dict_keys_def)
next
  case (snoc e es)
  then show ?case
    by (simp add: accumulate_snoc keys_add_to first_occurrences_snoc)
qed

lemma sum_amounts_snoc:
  "sum_amounts (xs @ [a]) = (if xs = [] then a else fadd (sum_amounts xs) a)"
  by (cases xs) simp_all

text \<open>
  The value under a key is the sum, from left to right, of the amounts of the expenses with
  that key.
\<close>

lemma getitem_accumulate:
  "getitem (accumulate key es) k =
     (if k \<in> key ` set es
      then Some (sum_amounts (map amount (filter (\<lambda>e. key e = k) es)))
      else None)"
proof (induction es rule: rev_induct)
  case Nil
  show ?case by (simp add: accumulate_def getitem_def)
next
  case (snoc e es)
  show ?case
  proof (cases "key e = k")
    case False
    with snoc show ?thesis by (auto simp: accumulate_snoc getitem_add_to)
  next
    case True
    show ?thesis
    proof (cases "k \<in> key ` set es")
      case False
      then have "filter (\<lambda>e. key e = k) es = []" by (auto simp: filter_empty_conv)
      with snoc True False show ?thesis
        by (simp add: accumulate_snoc getitem_add_to)
    next
      case in_es: True
      then have "filter (\<lambda>e. key e = k) es \<noteq> []" by (auto simp: filter_empty_conv)
      with snoc True in_es show ?thesis
        by (simp add: accumulate_snoc getitem_add_to sum_amounts_snoc)
    qed
  qed
qed

section \<open>Requests that fail\<close>

text \<open>Whatever exception leaves \<open>add_expense\<close> or \<open>delete_expense\<close>, the database is as before.\<close>

lemma add_expense_error_keeps_rows:
  "fst (add_expense py_float strptime req rows) = Inl e \<Longrightarrow>
   snd (add_expense py_float strptime req rows) = rows"
  by (auto simp: add_expense_def split: if_splits sum.splits)

lemma delete_expense_error_keeps_rows:
  "fst (delete_expense i rows) = Inl e \<Longrightarrow> snd (delete_expense i rows) = rows"
  by (auto simp: delete_expense_def split: sum.splits)

section \<open>Looking up and deleting rows\<close>




lemma get_or_404_overflow:
  "\<not> sqlite_integer i \<Longrightarrow> get_or_404 rows i = Inl OverflowError"
  by (simp add: get_or_404_def)


lemma set_order_by_date_desc [simp]: "set (order_by_date_desc rows) = set rows"
  by (simp add: order_by_date_desc_def)

section \<open>Float addition without rounding\<close>

lemma round_half_even_of_int [simp]: "round_half_even (of_int m) = m"
  by (simp add: round_half_even_def)

lemma ilog2_of_int: "1 \<le> n \<Longrightarrow> ilog2 (of_int n) = bitlen n - 1"
  by (simp add: ilog2_def)

lemma pow2_pos [simp]: "0 < pow2 e"
  by (simp add: pow2_def)

lemma pow2_nonzero [simp]: "pow2 e \<noteq> 0"
  by (simp add: pow2_def)

lemma round64_integral:
  assumes "q \<noteq> 0" and "q / pow2 (max (ilog2 \<bar>q\<bar> - 52) (- 1074)) = of_int k"
    and "\<bar>q\<bar> < pow2 1024"
  shows "round64 q = Finite q"
proof -
  let ?e = "max (ilog2 \<bar>q\<bar> - 52) (- 1074)"
  have "of_int (round_half_even (q / pow2 ?e)) * pow2 ?e = q / pow2 ?e * pow2 ?e"
    by (simp only: assms(2) round_half_even_of_int)
  also have "\<dots> = q"
    by simp
  finally have "of_int (round_half_even (q / pow2 ?e)) * pow2 ?e = q" .
  with assms(1,3) show ?thesis
    by (simp add: round64_def Let_def)
qed

lemma pow2_power_int: "pow2 e = power_int 2 e"
  by (simp add: pow2_def power_int_def inverse_eq_divide power_one_over)

lemma pow2_add: "pow2 (a + b) = pow2 a * pow2 b"
  by (simp add: pow2_power_int power_int_add)

lemma pow2_strict_mono: "a < b \<Longrightarrow> pow2 a < pow2 b"
  unfolding pow2_power_int by (rule power_int_strict_increasing) simp_all

lemma pow2_less_iff: "pow2 a < pow2 b \<longleftrightarrow> a < b"
  using pow2_strict_mono [of a b] pow2_strict_mono [of b a]
  by (cases a b rule: linorder_cases) auto

lemma pow2_le_iff: "pow2 a \<le> pow2 b \<longleftrightarrow> a \<le> b"
  using pow2_less_iff [of b a] by (simp add: not_less [symmetric])

lemma pow2_nat: "0 \<le> e \<Longrightarrow> pow2 e = 2 ^ nat e"
  by (simp add: pow2_def)

text \<open>\<open>ilog2\<close> does not exceed the binary logarithm.\<close>

lemma pow2_ilog2_le:
  assumes "0 < q"
  shows "pow2 (ilog2 q) \<le> q"
proof (cases "1 \<le> q")
  case True
  then have f: "1 \<le> \<lfloor>q\<rfloor>" by simp
  then have len: "1 \<le> bitlen \<lfloor>q\<rfloor>" by (simp add: bitlen_ge_iff_power)
  have "(2::int) ^ nat (bitlen \<lfloor>q\<rfloor> - 1) \<le> \<lfloor>q\<rfloor>"
    using bitlen_bounds [of "\<lfloor>q\<rfloor>"] f by simp
  then have "(of_int (2 ^ nat (bitlen \<lfloor>q\<rfloor> - 1)) :: rat) \<le> of_int \<lfloor>q\<rfloor>"
    by (simp only: of_int_le_iff)
  also have "\<dots> \<le> q" by simp
  finally show ?thesis
    using True len by (simp add: ilog2_def pow2_nat)
next
  case False
  define c where "c = \<lceil>1 / q\<rceil>"
  have inv: "1 < 1 / q" using False assms by simp
  then have c: "2 \<le> c" unfolding c_def by (simp add: le_ceiling_iff)
  have "c - 1 < 2 ^ nat (bitlen (c - 1))"
    using bitlen_bounds [of "c - 1"] c by simp
  then have "c \<le> 2 ^ nat (bitlen (c - 1))" by simp
  then have "(of_int c :: rat) \<le> 2 ^ nat (bitlen (c - 1))" by simp
  moreover have "1 / q \<le> of_int c" unfolding c_def by simp
  ultimately have "1 / q \<le> 2 ^ nat (bitlen (c - 1))" by (rule order_trans [rotated])
  then have "1 / 2 ^ nat (bitlen (c - 1)) \<le> q"
    using assms by (simp add: field_simps)
  moreover have "ilog2 q = - bitlen (c - 1)"
    using False by (simp add: ilog2_def c_def)
  moreover have "0 \<le> bitlen (c - 1)" by (rule bitlen_nonneg)
  ultimately show ?thesis
    by (cases "bitlen (c - 1) = 0") (simp_all add: pow2_def)
qed

lemma ilog2_less:
  assumes "0 < q" "q < pow2 m"
  shows "ilog2 q < m"
proof -
  have "pow2 (ilog2 q) < pow2 m"
    using pow2_ilog2_le [OF assms(1)] assms(2) by simp
  then show ?thesis by (simp add: pow2_less_iff)
qed

text \<open>A number with a significand of less than 53 bits and an exponent in range is a float.\<close>

lemma round64_grid_less:
  assumes "\<bar>n\<bar> < 2 ^ 53" and "- 1074 \<le> g" and "g \<le> 971"
  shows "round64 (of_int n * pow2 g) = Finite (of_int n * pow2 g)"
proof (cases "n = 0")
  case True
  then show ?thesis by (simp add: round64_def)
next
  case False
  define q :: rat where "q = of_int n * pow2 g"
  have q0: "q \<noteq> 0" using False by (simp add: q_def)
  have absq: "\<bar>q\<bar> = of_int \<bar>n\<bar> * pow2 g"
    by (simp add: q_def abs_mult abs_of_pos)
  have "(of_int \<bar>n\<bar> :: rat) < of_int (2 ^ 53)" using assms(1) by (simp only: of_int_less_iff)
  then have n53: "(of_int \<bar>n\<bar> :: rat) < pow2 53" by (simp add: pow2_def)
  then have "\<bar>q\<bar> < pow2 53 * pow2 g" by (simp add: absq)
  then have lt: "\<bar>q\<bar> < pow2 (53 + g)" by (simp add: pow2_add)
  have "0 < \<bar>q\<bar>" using q0 by simp
  then have "ilog2 \<bar>q\<bar> < 53 + g" using lt by (rule ilog2_less)
  then have e: "max (ilog2 \<bar>q\<bar> - 52) (- 1074) \<le> g" using assms(2) by simp
  define e where "e = max (ilog2 \<bar>q\<bar> - 52) (- 1074)"
  have "pow2 g = pow2 (g - e) * pow2 e" by (simp flip: pow2_add)
  also have "pow2 (g - e) = of_int (2 ^ nat (g - e))"
    using e by (simp add: e_def pow2_nat)
  finally have "q / pow2 e = of_int (n * 2 ^ nat (g - e))"
    by (simp add: q_def)
  moreover have "\<bar>q\<bar> < pow2 1024"
  proof -
    have "pow2 (53 + g) \<le> pow2 1024" using assms(3) by (simp add: pow2_le_iff)
    with lt show ?thesis by simp
  qed
  ultimately have "round64 q = Finite q"
    using q0 unfolding e_def by (intro round64_integral)
  then show ?thesis by (simp add: q_def)
qed

lemma round64_grid:
  assumes "\<bar>n\<bar> \<le> 2 ^ 53" and "- 1074 \<le> g" and "g \<le> 970"
  shows "round64 (of_int n * pow2 g) = Finite (of_int n * pow2 g)"
proof (cases "\<bar>n\<bar> = 2 ^ 53")
  case False
  with assms show ?thesis by (intro round64_grid_less) simp_all
next
  case True
  then have "n = 2 ^ 53 \<or> n = - (2 ^ 53)" by (simp add: abs_if split: if_splits)
  then have "n = 2 * 2 ^ 52 \<or> n = 2 * (- (2 ^ 52))" by simp
  moreover have "\<bar>2 ^ 52 :: int\<bar> < 2 ^ 53" "\<bar>- (2 ^ 52) :: int\<bar> < 2 ^ 53" by simp_all
  ultimately obtain m where m: "n = 2 * m" "\<bar>m\<bar> < 2 ^ 53" by blast
  have "pow2 1 = 2" by (simp add: pow2_def)
  then have "(of_int n :: rat) * pow2 g = of_int m * pow2 (g + 1)"
    by (simp add: m(1) pow2_add)
  moreover have "round64 (of_int m * pow2 (g + 1)) = Finite (of_int m * pow2 (g + 1))"
    using m(2) assms(2,3) by (intro round64_grid_less) simp_all
  ultimately show ?thesis by simp
qed

text \<open>Adding two multiples of a unit whose sum has at most 53 bits does not round.\<close>

lemma fadd_grid:
  assumes "\<bar>a + b\<bar> \<le> 2 ^ 53" and "- 1074 \<le> g" and "g \<le> 970"
  shows "fadd (grid g a) (grid g b) = grid g (a + b)"
proof -
  have "(of_int a :: rat) * pow2 g + of_int b * pow2 g = of_int (a + b) * pow2 g"
    by (simp add: distrib_right)
  with round64_grid [OF assms] show ?thesis by (simp add: grid_def)
qed

section \<open>Decimal digits and the date formats\<close>

lemma is_digit_iff: "is_digit c \<longleftrightarrow> 48 \<le> (of_char c :: nat) \<and> (of_char c :: nat) \<le> 57"
  by (simp add: is_digit_def less_eq_char_def)

lemma of_char_digit_char: "n < 10 \<Longrightarrow> (of_char (digit_char n) :: nat) = 48 + n"
  by (simp add: digit_char_def)

lemma is_digit_digit_char [simp]: "n < 10 \<Longrightarrow> is_digit (digit_char n)"
  by (simp add: is_digit_iff of_char_digit_char)

lemma digit_val_digit_char [simp]: "n < 10 \<Longrightarrow> digit_val (digit_char n) = n"
  by (simp add: digit_val_def of_char_digit_char)

lemma is_digit_zero [simp]: "is_digit (CHR ''0'')"
  by (simp add: is_digit_iff)

lemma digit_val_less: "is_digit c \<Longrightarrow> digit_val c < 10"
  by (auto simp: is_digit_iff digit_val_def)

lemma digit_less_iff:
  "is_digit x \<Longrightarrow> is_digit y \<Longrightarrow> x < y \<longleftrightarrow> digit_val x < digit_val y"
  by (auto simp: is_digit_iff digit_val_def less_char_def)

lemma digit_eq_iff:
  "is_digit x \<Longrightarrow> is_digit y \<Longrightarrow> x = y \<longleftrightarrow> digit_val x = digit_val y"
proof -
  assume "is_digit x" "is_digit y"
  then have "digit_val x = digit_val y \<longleftrightarrow> (of_char x :: nat) = of_char y"
    unfolding is_digit_iff digit_val_def by linarith
  also have "\<dots> \<longleftrightarrow> x = y" by simp
  finally show ?thesis by simp
qed

lemma number_from_shift: "number_from acc cs = acc * 10 ^ length cs + number_from 0 cs"
proof (induction cs arbitrary: acc)
  case Nil
  show ?case by simp
next
  case (Cons c cs)
  show ?case
    using Cons [of "10 * acc + digit_val c"] Cons [of "digit_val c"]
    by (simp add: algebra_simps)
qed

lemma number_Cons: "number (c # cs) = digit_val c * 10 ^ length cs + number cs"
  using number_from_shift [of "digit_val c" cs] by (simp add: number_def)

lemma number_Nil [simp]: "number [] = 0"
  by (simp add: number_def)

lemma number_append: "number (xs @ ys) = number xs * 10 ^ length ys + number ys"
  by (induction xs) (simp_all add: number_Cons power_add algebra_simps)

lemma number_bound: "list_all is_digit cs \<Longrightarrow> number cs < 10 ^ length cs"
proof (induction cs)
  case Nil
  show ?case by simp
next
  case (Cons c cs)
  then have "digit_val c \<le> 9" "number cs < 10 ^ length cs"
    using digit_val_less [of c] by simp_all
  then have "digit_val c * 10 ^ length cs + number cs < 9 * 10 ^ length cs + 10 ^ length cs"
    by (intro add_le_less_mono mult_right_mono) simp_all
  then show ?case by (simp add: number_Cons)
qed

lemma digits_are_digits: "list_all is_digit (digits n)"
  by (induction n rule: digits.induct) (subst digits.simps, simp)

lemma number_digits: "number (digits n) = n"
proof (induction n rule: digits.induct)
  case (1 n)
  show ?case
  proof (cases "n < 10")
    case True
    then show ?thesis by (subst digits.simps) (simp add: number_Cons)
  next
    case False
    with 1 show ?thesis
      by (subst digits.simps) (simp add: number_append number_Cons)
  qed
qed

lemma length_digits: "0 < w \<Longrightarrow> n < 10 ^ w \<Longrightarrow> length (digits n) \<le> w"
proof (induction n arbitrary: w rule: digits.induct)
  case (1 n)
  show ?case
  proof (cases "n < 10")
    case True
    with 1(2) show ?thesis by (subst digits.simps) simp
  next
    case False
    obtain v where w: "w = Suc v" using 1(2) by (cases w) auto
    with False 1(3) have "0 < v"
      by (cases v) auto
    moreover have "n div 10 < 10 ^ v" using 1(3) w by (simp add: less_mult_imp_div_less)
    ultimately have "length (digits (n div 10)) \<le> v" using 1(1) False by simp
    with False w show ?thesis by (subst digits.simps) simp
  qed
qed

lemma digits_nonempty: "digits n \<noteq> []"
  by (subst digits.simps) simp

lemma number_zeros: "number (replicate k (CHR ''0'') @ cs) = number cs"
  by (induction k) (simp_all add: number_Cons digit_val_def)

lemma zero_pad_props:
  assumes "0 < w" "n < 10 ^ w"
  shows "length (zero_pad w n) = w" "list_all is_digit (zero_pad w n)" "number (zero_pad w n) = n"
proof -
  show "length (zero_pad w n) = w"
    using length_digits [OF assms] by (simp add: zero_pad_def)
  show "list_all is_digit (zero_pad w n)"
    using digits_are_digits [of n] by (auto simp: zero_pad_def list_all_iff)
  show "number (zero_pad w n) = n"
    by (simp add: zero_pad_def number_zeros number_digits)
qed

lemma length_digits_ge: "10 ^ w \<le> n \<Longrightarrow> w < length (digits n)"
proof (induction w arbitrary: n)
  case 0
  show ?case using digits_nonempty [of n] by simp
next
  case (Suc w)
  have "(10::nat) ^ Suc w = 10 * 10 ^ w" by simp
  with Suc.prems have big: "10 * 10 ^ w \<le> n" by simp
  have "(1::nat) \<le> 10 ^ w" by simp
  with big have "\<not> n < 10" by linarith
  moreover have "10 ^ w \<le> n div 10" using big by simp
  then have "w < length (digits (n div 10))" by (rule Suc.IH)
  ultimately show ?case by (subst digits.simps) simp
qed

text \<open>A year from 1000 on is printed in exactly four digits.\<close>

lemma digits_year:
  assumes "1000 \<le> n" "n \<le> 9999"
  shows "digits n = zero_pad 4 n"
proof -
  have "3 < length (digits n)" using assms(1) by (intro length_digits_ge) simp
  moreover have "length (digits n) \<le> 4" using assms(2) by (intro length_digits) simp_all
  ultimately show ?thesis by (simp add: zero_pad_def)
qed



lemma strftime_Ym_key:
  assumes "valid_datetime d" "1000 \<le> year d"
  shows "valid_month_key (strftime_Ym d)" "month_of_key (strftime_Ym d) = (year d, month d)"
proof -
  have y: "year d < 10 ^ 4" and m: "month d < 10 ^ 2"
    using assms by (simp_all add: valid_datetime_def)
  have pad: "digits (year d) = zero_pad 4 (year d)"
    using assms by (intro digits_year) (simp_all add: valid_datetime_def)
  note Y = zero_pad_props [OF _ y] and M = zero_pad_props [OF _ m]
  show "valid_month_key (strftime_Ym d)"
    using Y M assms
    by (simp add: valid_month_key_def strftime_Ym_def pad nth_append valid_datetime_def)
  show "month_of_key (strftime_Ym d) = (year d, month d)"
    using Y M by (simp add: month_of_key_def strftime_Ym_def pad)
qed

section \<open>The order of month keys\<close>

lemma mixed_radix_less:
  fixes a b u v P :: nat
  assumes "a < P" "b < P"
  shows "u * P + a < v * P + b \<longleftrightarrow> u < v \<or> u = v \<and> a < b"
proof (cases u v rule: linorder_cases)
  case less
  then have "Suc u * P \<le> v * P" by (intro mult_le_mono1) simp
  with assms(1) have "u * P + a < v * P + b" by simp
  with less show ?thesis by simp
next
  case equal
  then show ?thesis by simp
next
  case greater
  then have "Suc v * P \<le> u * P" by (intro mult_le_mono1) simp
  with assms(2) have "v * P + b < u * P + a" by simp
  with greater show ?thesis by simp
qed

lemma mixed_radix_eq:
  fixes a b u v P :: nat
  assumes "a < P" "b < P"
  shows "u * P + a = v * P + b \<longleftrightarrow> u = v \<and> a = b"
  using mixed_radix_less [OF assms, of u v] mixed_radix_less [OF assms(2,1), of v u]
  by auto

lemma digits_order:
  assumes "length xs = length ys" "list_all is_digit xs" "list_all is_digit ys"
  shows "(xs < ys \<longleftrightarrow> number xs < number ys) \<and> (xs = ys \<longleftrightarrow> number xs = number ys)"
  using assms
proof (induction xs ys rule: list_induct2)
  case Nil
  show ?case by simp
next
  case (Cons x xs y ys)
  then have d: "is_digit x" "is_digit y" and ds: "list_all is_digit xs" "list_all is_digit ys"
    by simp_all
  have b: "number xs < 10 ^ length ys" "number ys < 10 ^ length ys"
    using number_bound [OF ds(1)] number_bound [OF ds(2)] Cons.hyps by simp_all
  have IH: "xs < ys \<longleftrightarrow> number xs < number ys" "xs = ys \<longleftrightarrow> number xs = number ys"
    using Cons.IH ds by simp_all
  show ?case
    using mixed_radix_less [OF b, of "digit_val x" "digit_val y"]
      mixed_radix_eq [OF b, of "digit_val x" "digit_val y"]
      digit_less_iff [OF d] digit_eq_iff [OF d] IH Cons.hyps
    by (simp add: number_Cons)
qed

lemma append_less_same_length:
  "length a = length b \<Longrightarrow> a @ r < b @ s \<longleftrightarrow> a < b \<or> a = b \<and> r < s"
  by (induction a b rule: list_induct2) auto

lemma month_key_split:
  assumes "valid_month_key k"
  shows "k = take 4 k @ CHR ''-'' # drop 5 k" "length (take 4 k) = 4" "length (drop 5 k) = 2"
proof -
  have len: "length k = 7" and dash: "k ! 4 = CHR ''-''"
    using assms by (simp_all add: valid_month_key_def)
  have "k = take 4 k @ drop 4 k" by simp
  also have "drop 4 k = k ! 4 # drop 5 k"
    using len Cons_nth_drop_Suc [of 4 k] by simp
  finally show "k = take 4 k @ CHR ''-'' # drop 5 k" using dash by simp
  show "length (take 4 k) = 4" "length (drop 5 k) = 2" using len by simp_all
qed

lemma month_key_less:
  assumes "valid_month_key a" "valid_month_key b"
  shows "a < b \<longleftrightarrow> month_of_key a < month_of_key b"
proof -
  note A = month_key_split [OF assms(1)] and B = month_key_split [OF assms(2)]
  have da: "list_all is_digit (take 4 a)" "list_all is_digit (drop 5 a)"
    and db: "list_all is_digit (take 4 b)" "list_all is_digit (drop 5 b)"
    using assms by (simp_all add: valid_month_key_def)
  have Y: "(take 4 a < take 4 b \<longleftrightarrow> number (take 4 a) < number (take 4 b)) \<and>
           (take 4 a = take 4 b \<longleftrightarrow> number (take 4 a) = number (take 4 b))"
    using A(2) B(2) da(1) db(1) by (intro digits_order) simp_all
  have M: "(drop 5 a < drop 5 b \<longleftrightarrow> number (drop 5 a) < number (drop 5 b))"
    using A(3) B(3) da(2) db(2) digits_order [of "drop 5 a" "drop 5 b"] by simp
  have "a < b \<longleftrightarrow> take 4 a @ CHR ''-'' # drop 5 a < take 4 b @ CHR ''-'' # drop 5 b"
    using A(1) B(1) by simp
  also have "\<dots> \<longleftrightarrow> take 4 a < take 4 b \<or> take 4 a = take 4 b \<and> drop 5 a < drop 5 b"
    using A(2) B(2) by (subst append_less_same_length) simp_all
  also have "\<dots> \<longleftrightarrow> month_of_key a < month_of_key b"
    using Y M by (auto simp: month_of_key_def less_prod_def)
  finally show ?thesis .
qed

lemma month_key_le:
  assumes "valid_month_key a" "valid_month_key b"
  shows "a \<le> b \<longleftrightarrow> month_of_key a \<le> month_of_key b"
  using month_key_less [OF assms(2,1)] by (simp add: not_less [symmetric])

text \<open>
  The keys the loop of \<open>dashboard\<close> builds from dates of the year 1000 or later are distinct
  month keys.
\<close>

lemma monthly_data_keys_valid:
  assumes "\<forall>e \<in> set es. valid_datetime (date e) \<and> 1000 \<le> year (date e)"
  shows "distinct (dict_keys (monthly_data es))"
    and "\<forall>k \<in> set (dict_keys (monthly_data es)). valid_month_key k"
  using assms by (auto simp: monthly_data_accumulate keys_accumulate strftime_Ym_key(1))

section \<open>Sums of amounts that add without rounding\<close>

lemma on_grid_eq: "on_grid g x \<Longrightarrow> x = grid g (units_of g x)"
  by (cases x) (simp_all add: grid_def)

lemma foldl_fadd_grid:
  assumes "- 1074 \<le> g" and "g \<le> 970"
  shows "\<bar>s\<bar> + sum_list (map abs xs) \<le> 2 ^ 53 \<Longrightarrow>
         foldl fadd (grid g s) (map (grid g) xs) = grid g (s + sum_list xs)"
proof (induction xs arbitrary: s)
  case Nil
  show ?case by simp
next
  case (Cons x xs)
  have "0 \<le> sum_list (map abs xs)" by (rule sum_list_nonneg) auto
  with Cons.prems have step: "\<bar>s + x\<bar> \<le> 2 ^ 53" by simp
  have "\<bar>s + x\<bar> + sum_list (map abs xs) \<le> 2 ^ 53" using Cons.prems by simp
  then have "foldl fadd (grid g (s + x)) (map (grid g) xs) = grid g (s + x + sum_list xs)"
    by (rule Cons.IH)
  then show ?case by (simp add: fadd_grid [OF step assms] add.assoc)
qed

lemma sum_amounts_grid:
  assumes "- 1074 \<le> g" and "g \<le> 970" and "sum_list (map abs xs) \<le> 2 ^ 53"
  shows "sum_amounts (map (grid g) xs) = grid g (sum_list xs)"
proof (cases xs)
  case Nil
  then show ?thesis by (simp add: grid_def)
next
  case (Cons x ys)
  with assms(3) have "\<bar>x\<bar> + sum_list (map abs ys) \<le> 2 ^ 53" by simp
  from foldl_fadd_grid [OF assms(1,2) this] Cons show ?thesis by simp
qed

lemma sum_list_filter_le:
  fixes f :: "'a \<Rightarrow> int"
  assumes "\<And>x. 0 \<le> f x"
  shows "sum_list (map f (filter P xs)) \<le> sum_list (map f xs)"
  using assms by (induction xs) (auto intro: add_increasing)

text \<open>The sum of any selection of the expenses is the float of the sum of their units.\<close>

lemma sum_amounts_filter:
  assumes "exactly_summable g es"
  shows "sum_amounts (map amount (filter P es)) =
         grid g (sum_list (map (\<lambda>e. units_of g (amount e)) (filter P es)))"
proof -
  have range: "- 1074 \<le> g" "g \<le> 970"
    and grid: "\<forall>e \<in> set es. on_grid g (amount e)"
    and bound: "sum_list (map (\<lambda>e. \<bar>units_of g (amount e)\<bar>) es) \<le> 2 ^ 53"
    using assms by (simp_all add: exactly_summable_def list_all_iff)
  let ?xs = "map (\<lambda>e. units_of g (amount e)) (filter P es)"
  have eq: "map amount (filter P es) = map (grid g) ?xs"
    using grid by (auto intro: on_grid_eq)
  have small: "sum_list (map abs ?xs) \<le> 2 ^ 53"
    using sum_list_filter_le [of "\<lambda>e. \<bar>units_of g (amount e)\<bar>" P es] bound
    by (simp add: comp_def)
  show ?thesis
    unfolding eq by (rule sum_amounts_grid [OF range small])
qed

lemma sum_amounts_all:
  assumes "exactly_summable g es"
  shows "sum_amounts (map amount es) = grid g (sum_list (map (\<lambda>e. units_of g (amount e)) es))"
  using sum_amounts_filter [OF assms, of "\<lambda>_. True"] by simp

text \<open>Sums by key add up to the sum of all.\<close>

lemma sum_list_at_key:
  fixes c :: int
  shows "distinct ks \<Longrightarrow> (\<Sum>k\<leftarrow>ks. if x = k then c else 0) = (if x \<in> set ks then c else 0)"
  by (induction ks) auto

lemma sum_by_key:
  fixes f :: "'a \<Rightarrow> int"
  assumes "distinct ks" "key ` set es \<subseteq> set ks"
  shows "(\<Sum>k\<leftarrow>ks. sum_list (map f (filter (\<lambda>e. key e = k) es))) = sum_list (map f es)"
  using assms(2)
proof (induction es)
  case Nil
  show ?case by simp
next
  case (Cons e es)
  have "(\<Sum>k\<leftarrow>ks. sum_list (map f (filter (\<lambda>x. key x = k) (e # es)))) =
        (\<Sum>k\<leftarrow>ks. (if key e = k then f e else 0) + sum_list (map f (filter (\<lambda>x. key x = k) es)))"
    by (intro arg_cong [where f = sum_list] map_cong) auto
  also have "\<dots> = (\<Sum>k\<leftarrow>ks. if key e = k then f e else 0) +
                   (\<Sum>k\<leftarrow>ks. sum_list (map f (filter (\<lambda>x. key x = k) es)))"
    by (simp add: sum_list_addf)
  also have "(\<Sum>k\<leftarrow>ks. if key e = k then f e else 0) = f e"
    using assms(1) Cons.prems by (simp add: sum_list_at_key)
  finally show ?case using Cons by simp
qed

lemma values_by_keys:
  "distinct (dict_keys d) \<Longrightarrow> dict_values d = map (\<lambda>k. the (getitem d k)) (dict_keys d)"
proof (induction d)
  case Nil
  show ?case by (simp add: dict_values_def dict_keys_def)
next
  case (Cons p d)
  obtain k v where p: "p = (k, v)" by (cases p)
  have fresh: "k \<notin> set (dict_keys d)" and dist: "distinct (dict_keys d)"
    using Cons.prems by (simp_all add: p dict_keys_def)
  have "map (\<lambda>k'. the (getitem (p # d) k')) (dict_keys d) =
        map (\<lambda>k'. the (getitem d k')) (dict_keys d)"
    using fresh by (intro map_cong) (auto simp: p getitem_def)
  with Cons.IH [OF dist] show ?case
    by (simp add: p dict_values_def dict_keys_def getitem_def)
qed

lemma values_accumulate:
  "dict_values (accumulate key es) =
     map (\<lambda>k. sum_amounts (map amount (filter (\<lambda>e. key e = k) es)))
       (first_occurrences (map key es))"
proof -
  have "distinct (dict_keys (accumulate key es))" by (simp add: keys_accumulate)
  then have "dict_values (accumulate key es) =
      map (\<lambda>k. the (getitem (accumulate key es) k)) (first_occurrences (map key es))"
    by (simp add: values_by_keys keys_accumulate)
  also have "\<dots> = map (\<lambda>k. sum_amounts (map amount (filter (\<lambda>e. key e = k) es)))
       (first_occurrences (map key es))"
    by (intro map_cong) (auto simp: getitem_accumulate)
  finally show ?thesis .
qed

text \<open>Whatever the key, the values of the dictionary add up to the float of all units.\<close>

lemma sum_values_accumulate:
  assumes "exactly_summable g es"
  shows "sum_amounts (dict_values (accumulate key es)) =
         grid g (sum_list (map (\<lambda>e. units_of g (amount e)) es))"
proof -
  have range: "- 1074 \<le> g" "g \<le> 970"
    using assms by (simp_all add: exactly_summable_def)
  let ?ks = "first_occurrences (map key es)"
  let ?g = "\<lambda>k. sum_list (map (\<lambda>e. units_of g (amount e)) (filter (\<lambda>e. key e = k) es))"
  let ?h = "\<lambda>k. sum_list (map (\<lambda>e. \<bar>units_of g (amount e)\<bar>) (filter (\<lambda>e. key e = k) es))"
  have ks: "distinct ?ks" "key ` set es \<subseteq> set ?ks" by simp_all
  have vals: "dict_values (accumulate key es) = map (grid g) (map ?g ?ks)"
    by (simp add: values_accumulate sum_amounts_filter [OF assms] comp_def)
  have "sum_list (map abs (map ?g ?ks)) \<le> sum_list (map ?h ?ks)"
    unfolding map_map comp_def
    by (intro sum_list_mono) (simp add: sum_list_abs [of "map _ _", simplified map_map comp_def])
  also have "\<dots> = sum_list (map (\<lambda>e. \<bar>units_of g (amount e)\<bar>) es)"
    by (rule sum_by_key [OF ks])
  also have "\<dots> \<le> 2 ^ 53"
    using assms by (simp add: exactly_summable_def)
  finally have "sum_amounts (map (grid g) (map ?g ?ks)) = grid g (sum_list (map ?g ?ks))"
    by (rule sum_amounts_grid [OF range])
  also have "sum_list (map ?g ?ks) = sum_list (map (\<lambda>e. units_of g (amount e)) es)"
    by (rule sum_by_key [OF ks])
  finally show ?thesis by (simp only: vals)
qed

lemma sum_list_map_mset:
  fixes f :: "'a \<Rightarrow> int"
  assumes "mset xs = mset ys"
  shows "sum_list (map f xs) = sum_list (map f ys)"
proof -
  have "sum_mset (mset (map f xs)) = sum_mset (mset (map f ys))"
    using assms by simp
  then show ?thesis by (simp only: sum_mset_sum_list)
qed

lemma exactly_summable_mset:
  assumes "mset es' = mset es" "exactly_summable g es"
  shows "exactly_summable g es'"
proof -
  have "set es' = set es" using assms(1) by (rule mset_eq_setD)
  moreover have "sum_list (map (\<lambda>e. \<bar>units_of g (amount e)\<bar>) es') =
                 sum_list (map (\<lambda>e. \<bar>units_of g (amount e)\<bar>) es)"
    using assms(1) by (rule sum_list_map_mset)
  ultimately show ?thesis
    using assms(2) by (simp add: exactly_summable_def list_all_iff)
qed

section \<open>Float addition that rounds\<close>

lemma bitlen_54: "2 ^ 53 \<le> n \<Longrightarrow> n < 2 ^ 54 \<Longrightarrow> bitlen n = 54"
  using bitlen_le_iff_power [of n 54] bitlen_ge_iff_power [of 54 n] by simp

lemma round_half_even_half:
  "round_half_even (of_int n / 2) =
     (if even n then n div 2 else if even (n div 2) then n div 2 else n div 2 + 1)"
proof -
  have fl: "\<lfloor>(of_int n :: rat) / 2\<rfloor> = n div 2"
    using floor_divide_of_int_eq [of n 2, where ?'a = rat] by simp
  have "(of_int n :: rat) = of_int (2 * (n div 2) + n mod 2)" by simp
  also have "\<dots> = 2 * of_int (n div 2) + of_int (n mod 2)"
    by (simp only: of_int_add of_int_mult of_int_numeral)
  finally have split: "(of_int n :: rat) = 2 * of_int (n div 2) + of_int (n mod 2)" .
  have d: "(of_int n :: rat) / 2 - of_int (n div 2) = of_int (n mod 2) / 2"
    by (subst split) (simp add: field_simps)
  show ?thesis
  proof (cases "even n")
    case True
    then have "n mod 2 = 0" by presburger
    with True show ?thesis unfolding round_half_even_def Let_def fl d by simp
  next
    case False
    then have "n mod 2 = 1" by presburger
    with False show ?thesis unfolding round_half_even_def Let_def fl d by simp
  qed
qed

lemma round64_above_53:
  assumes "2 ^ 53 \<le> n" "n < 2 ^ 54"
  shows "round64 (of_int n) =
         Finite (of_int (if even n then n else if even (n div 2) then n - 1 else n + 1))"
proof -
  define m where "m = (if even n then n div 2 else if even (n div 2) then n div 2 else n div 2 + 1)"
  have pos: "0 < n" using assms(1) by (smt (verit) zero_less_power)
  have e: "max (ilog2 \<bar>of_int n :: rat\<bar> - 52) (- 1074) = 1"
    using pos bitlen_54 [OF assms] by (simp add: ilog2_of_int)
  have m2: "2 * m = (if even n then n else if even (n div 2) then n - 1 else n + 1)"
    unfolding m_def by presburger
  have "0 \<le> m" "m \<le> 2 ^ 53" using assms(2) pos unfolding m_def by auto
  then have "\<bar>m * 2\<bar> \<le> 2 ^ 54" by simp
  then have "(of_int \<bar>m * 2\<bar> :: rat) \<le> of_int (2 ^ 54)" by (simp only: of_int_le_iff)
  then have "\<bar>(of_int m :: rat) * 2\<bar> \<le> 2 ^ 54" by simp
  also have "(2::rat) ^ 54 < pow2 1024" by (simp add: pow2_def power_strict_increasing_iff)
  finally have small: "\<not> pow2 1024 \<le> \<bar>(of_int m :: rat) * 2\<bar>" by simp
  have one: "pow2 1 = 2" by (simp add: pow2_def)
  have r: "round_half_even (of_int n / 2) = m"
    unfolding m_def by (rule round_half_even_half)
  have nz: "(of_int n :: rat) \<noteq> 0" "(0::rat) < of_int n" using pos by simp_all
  have "round64 (of_int n) = Finite (of_int m * 2)"
    unfolding round64_def Let_def e one r using nz small by (simp only: if_False if_True)
  also have "(of_int m :: rat) * 2 = of_int (2 * m)" by simp
  finally show ?thesis by (simp only: m2)
qed

lemma fadd_1e16_1: "fadd (Finite 10000000000000000) (Finite 1) = Finite 10000000000000000"
  using round64_above_53 [of 10000000000000001] by simp

lemma fadd_1_1e16: "fadd (Finite 1) (Finite 10000000000000000) = Finite 10000000000000000"
  using round64_above_53 [of 10000000000000001] by simp

lemma fadd_1e16_2: "fadd (Finite 10000000000000000) (Finite 2) = Finite 10000000000000002"
  using round64_above_53 [of 10000000000000002] by simp

lemma fadd_2_1e16: "fadd (Finite 2) (Finite 10000000000000000) = Finite 10000000000000002"
  using round64_above_53 [of 10000000000000002] by simp

lemma fadd_1_1: "fadd (Finite 1) (Finite 1) = Finite 2"
  using fadd_grid [of 1 1 0] by (simp add: grid_def pow2_def)

section \<open>Evaluating the loop and the formats on examples\<close>

lemma strftime_Ym_jan: "strftime_Ym (on_day 2024 (Suc 0) d) = ''2024-01''"
  by code_simp

lemma add_to_empty: "add_to [] k a = [(k, a)]"
  by (simp add: add_to_def getitem_def)

lemma add_to_Cons:
  "add_to ((k', v) # d) k a =
     (if k' = k then (k, fadd v a) # d else (k', v) # add_to d k a)"
  by (simp add: add_to_def getitem_def split: option.splits)



section \<open>The claims\<close>

text \<open>
  C1, as stated, fails: float addition rounds, and the two dictionaries add the same amounts
  in different groupings. With one expense of \<open>10\<^sup>1\<^sup>6\<close> and two of \<open>1\<close> in the same month,
  the values of \<open>categories\<close> add up to \<open>10\<^sup>1\<^sup>6 + 2\<close> and the values of \<open>monthly_data\<close> to
  \<open>10\<^sup>1\<^sup>6\<close>.
\<close>

theorem totals_differ_by_rounding:
  "sum_amounts (dict_values (categories
      [spent 1 (Finite 10000000000000000) ''Rent'' (on_day 2024 1 5),
       spent 2 (Finite 1) ''Food'' (on_day 2024 1 10),
       spent 3 (Finite 1) ''Food'' (on_day 2024 1 20)])) = Finite 10000000000000002 \<and>
   sum_amounts (dict_values (monthly_data
      [spent 1 (Finite 10000000000000000) ''Rent'' (on_day 2024 1 5),
       spent 2 (Finite 1) ''Food'' (on_day 2024 1 10),
       spent 3 (Finite 1) ''Food'' (on_day 2024 1 20)])) = Finite 10000000000000000 \<and>
   sum_amounts (dict_values (categories
      [spent 1 (Finite 10000000000000000) ''Rent'' (on_day 2024 1 5),
       spent 2 (Finite 1) ''Food'' (on_day 2024 1 10),
       spent 3 (Finite 1) ''Food'' (on_day 2024 1 20)])) \<noteq>
   sum_amounts (dict_values (monthly_data
      [spent 1 (Finite 10000000000000000) ''Rent'' (on_day 2024 1 5),
       spent 2 (Finite 1) ''Food'' (on_day 2024 1 10),
       spent 3 (Finite 1) ''Food'' (on_day 2024 1 20)]))"
  by (simp add: categories_def monthly_data_def dashboard_loop_def strftime_Ym_jan
      add_to_empty add_to_Cons dict_values_def fadd_1e16_1 fadd_1e16_2 fadd_1_1 Let_def
      del: fadd.simps)

text \<open>
  C1, amended. When the amounts are all multiples of one unit \<open>2\<^sup>g\<close> (whole numbers, halves,
  quarters, ...) and their magnitudes add up to at most \<open>2\<^sup>5\<^sup>3\<close> units, so that no addition
  rounds, the values of \<open>categories\<close>, the values of \<open>monthly_data\<close> and the amounts of the
  expenses have the same sum.
\<close>

theorem totals_agree_when_exact:
  assumes "exactly_summable g expenses"
  shows "sum_amounts (dict_values (categories expenses)) =
           sum_amounts (dict_values (monthly_data expenses)) \<and>
         sum_amounts (dict_values (monthly_data expenses)) =
           sum_amounts (map amount expenses)"
proof -
  let ?total = "grid g (sum_list (map (\<lambda>e. units_of g (amount e)) expenses))"
  have c: "sum_amounts (dict_values (categories expenses)) = ?total"
    unfolding categories_accumulate by (rule sum_values_accumulate [OF assms])
  have m: "sum_amounts (dict_values (monthly_data expenses)) = ?total"
    unfolding monthly_data_accumulate by (rule sum_values_accumulate [OF assms])
  have a: "sum_amounts (map amount expenses) = ?total"
    by (rule sum_amounts_all [OF assms])
  show ?thesis by (simp only: c m a)
qed

theorem totals_agree_when_exact_witness:
  "exactly_summable (- 2)
     [spent 1 (Finite (25 / 2)) ''Food'' (on_day 2024 1 15),
      spent 2 (Finite (1 / 4)) ''Food'' (on_day 2024 2 1),
      spent 3 (Finite 30) ''Transport'' (on_day 2024 1 20)] \<and>
   (sum_amounts (dict_values (categories
      [spent 1 (Finite (25 / 2)) ''Food'' (on_day 2024 1 15),
       spent 2 (Finite (1 / 4)) ''Food'' (on_day 2024 2 1),
       spent 3 (Finite 30) ''Transport'' (on_day 2024 1 20)])) =
    sum_amounts (dict_values (monthly_data
      [spent 1 (Finite (25 / 2)) ''Food'' (on_day 2024 1 15),
       spent 2 (Finite (1 / 4)) ''Food'' (on_day 2024 2 1),
       spent 3 (Finite 30) ''Transport'' (on_day 2024 1 20)])) \<and>
    sum_amounts (dict_values (monthly_data
      [spent 1 (Finite (25 / 2)) ''Food'' (on_day 2024 1 15),
       spent 2 (Finite (1 / 4)) ''Food'' (on_day 2024 2 1),
       spent 3 (Finite 30) ''Transport'' (on_day 2024 1 20)])) =
    sum_amounts (map amount
      [spent 1 (Finite (25 / 2)) ''Food'' (on_day 2024 1 15),
       spent 2 (Finite (1 / 4)) ''Food'' (on_day 2024 2 1),
       spent 3 (Finite 30) ''Transport'' (on_day 2024 1 20)]))"
proof -
  have h: "exactly_summable (- 2)
     [spent 1 (Finite (25 / 2)) ''Food'' (on_day 2024 1 15),
      spent 2 (Finite (1 / 4)) ''Food'' (on_day 2024 2 1),
      spent 3 (Finite 30) ''Transport'' (on_day 2024 1 20)]"
    by (simp add: exactly_summable_def pow2_def)
  show ?thesis
    by (rule conjI [OF h totals_agree_when_exact [OF h]])
qed










text \<open>
  C5. For a \<open>monthly_data\<close> whose keys are month keys \<open>YYYY-MM\<close>, \<open>sorted_months\<close> returns
  the same keys in non-decreasing order of strings, which is the order of the months they
  stand for: two keys compare as their months do. Keys that are distinct, as the keys of a
  dictionary are, come out strictly increasing.
\<close>

theorem sorted_months_chronological:
  assumes "\<forall>k \<in> set (dict_keys md). valid_month_key k"
  shows "mset (sorted_months md) = mset (dict_keys md) \<and>
         sorted (sorted_months md) \<and>
         sorted (map month_of_key (sorted_months md)) \<and>
         (\<forall>a \<in> set (dict_keys md). \<forall>b \<in> set (dict_keys md).
            a \<le> b \<longleftrightarrow> month_of_key a \<le> month_of_key b) \<and>
         (distinct (dict_keys md) \<longrightarrow>
            sorted_wrt (<) (sorted_months md) \<and>
            sorted_wrt (<) (map month_of_key (sorted_months md)))"
proof -
  let ?out = "sorted_months md"
  have valid: "\<forall>k \<in> set ?out. valid_month_key k"
    using assms by (simp add: sorted_months_def)
  have s: "sorted ?out" by (simp add: sorted_months_def)
  have le: "\<forall>a \<in> set ?out. \<forall>b \<in> set ?out. a \<le> b \<longleftrightarrow> month_of_key a \<le> month_of_key b"
    using valid month_key_le by blast
  have lt: "\<forall>a \<in> set ?out. \<forall>b \<in> set ?out. a < b \<longleftrightarrow> month_of_key a < month_of_key b"
    using valid month_key_less by blast
  have chron: "sorted (map month_of_key ?out)"
    unfolding sorted_map using s le by (auto intro: sorted_wrt_mono_rel [of ?out "(\<le>)"])
  have strict: "sorted_wrt (<) ?out \<and> sorted_wrt (<) (map month_of_key ?out)"
    if "distinct (dict_keys md)"
  proof -
    from that have "distinct ?out" by (simp add: sorted_months_def)
    with s have st: "sorted_wrt (<) ?out" by (simp add: strict_sorted_iff)
    then have "sorted_wrt (\<lambda>a b. month_of_key a < month_of_key b) ?out"
      using lt by (auto intro: sorted_wrt_mono_rel [of ?out "(<)"])
    with st show ?thesis by (simp add: sorted_wrt_map)
  qed
  show ?thesis
    using s chron le strict by (simp add: sorted_months_def)
qed

theorem sorted_months_chronological_witness:
  "sorted_months [(''2024-02'', Finite 50), (''2023-11'', Finite 130)] =
     [''2023-11'', ''2024-02''] \<and>
   sorted (map month_of_key
     (sorted_months [(''2024-02'', Finite 50), (''2023-11'', Finite 130)]))"
proof -
  have h: "\<forall>k \<in> set (dict_keys [(''2024-02'', Finite 50), (''2023-11'', Finite 130)]).
             valid_month_key k"
    by code_simp
  have "sorted_months [(''2024-02'', Finite 50), (''2023-11'', Finite 130)] =
          [''2023-11'', ''2024-02'']"
    by code_simp
  with sorted_months_chronological [OF h] show ?thesis by blast
qed

text \<open>
  C6. For no expenses the loop of \<open>dashboard\<close> leaves both dictionaries empty, and both
  chart helpers then return \<open>None\<close>, whatever drawing would do: the page is rendered with
  no charts and no exception is raised.
\<close>

theorem empty_collection_no_chart:
  "categories [] = [] \<and> monthly_data [] = [] \<and> sorted_months (monthly_data []) = [] \<and>
   generate_pie_chart draw_pie [] = Inr None \<and>
   generate_line_chart draw_line [] vals = Inr None \<and>
   dashboard draw_pie draw_line [] = (Inr (DashboardPage None None []), [])"
  by (simp add: categories_def monthly_data_def dashboard_loop_def generate_pie_chart_def
      generate_line_chart_def sorted_months_def dict_keys_def dashboard_def query_all_def)

text \<open>
  C7, as stated, fails: the value of a month is the sum of its amounts in the order of the
  expenses, and float addition depends on that order. The amounts \<open>1\<close>, \<open>10\<^sup>1\<^sup>6\<close>, \<open>1\<close> of one
  month add up to \<open>10\<^sup>1\<^sup>6\<close>; reordered as \<open>1\<close>, \<open>1\<close>, \<open>10\<^sup>1\<^sup>6\<close> they add up to \<open>10\<^sup>1\<^sup>6 + 2\<close>.
\<close>

theorem monthly_data_depends_on_order:
  "mset [spent 1 (Finite 1) ''Food'' (on_day 2024 1 5),
         spent 3 (Finite 1) ''Food'' (on_day 2024 1 20),
         spent 2 (Finite 10000000000000000) ''Rent'' (on_day 2024 1 10)] =
   mset [spent 1 (Finite 1) ''Food'' (on_day 2024 1 5),
         spent 2 (Finite 10000000000000000) ''Rent'' (on_day 2024 1 10),
         spent 3 (Finite 1) ''Food'' (on_day 2024 1 20)] \<and>
   monthly_data
        [spent 1 (Finite 1) ''Food'' (on_day 2024 1 5),
         spent 2 (Finite 10000000000000000) ''Rent'' (on_day 2024 1 10),
         spent 3 (Finite 1) ''Food'' (on_day 2024 1 20)] =
     [(''2024-01'', Finite 10000000000000000)] \<and>
   monthly_data
        [spent 1 (Finite 1) ''Food'' (on_day 2024 1 5),
         spent 3 (Finite 1) ''Food'' (on_day 2024 1 20),
         spent 2 (Finite 10000000000000000) ''Rent'' (on_day 2024 1 10)] =
     [(''2024-01'', Finite 10000000000000002)]"
  by (simp add: monthly_data_def dashboard_loop_def strftime_Ym_jan
      add_to_empty add_to_Cons fadd_1_1e16 fadd_1e16_1 fadd_2_1e16 fadd_1_1 Let_def
      del: fadd.simps)

text \<open>
  C7, amended. When the amounts are all multiples of one unit \<open>2\<^sup>g\<close> (whole numbers, halves,
  quarters, ...) and their magnitudes add up to at most \<open>2\<^sup>5\<^sup>3\<close> units, so that no addition
  rounds, \<open>monthly_data\<close> of a reordered list of expenses has the same keys and maps each
  key to the same sum.
\<close>

theorem monthly_data_reordered_when_exact:
  assumes "exactly_summable g expenses" and "mset expenses' = mset expenses"
  shows "set (dict_keys (monthly_data expenses')) = set (dict_keys (monthly_data expenses)) \<and>
         (\<forall>k. getitem (monthly_data expenses') k = getitem (monthly_data expenses) k)"
proof -
  let ?key = "\<lambda>e. strftime_Ym (date e)"
  have set_eq: "set expenses' = set expenses" using assms(2) by (rule mset_eq_setD)
  have ex': "exactly_summable g expenses'" using assms(2,1) by (rule exactly_summable_mset)
  have keys: "set (dict_keys (monthly_data expenses')) = set (dict_keys (monthly_data expenses))"
    by (simp add: monthly_data_accumulate keys_accumulate set_eq)
  have vals: "getitem (monthly_data expenses') k = getitem (monthly_data expenses) k" for k
  proof -
    have "mset (filter (\<lambda>e. ?key e = k) expenses') = mset (filter (\<lambda>e. ?key e = k) expenses)"
      by (simp only: mset_filter assms(2))
    then have "sum_list (map (\<lambda>e. units_of g (amount e)) (filter (\<lambda>e. ?key e = k) expenses')) =
               sum_list (map (\<lambda>e. units_of g (amount e)) (filter (\<lambda>e. ?key e = k) expenses))"
      by (rule sum_list_map_mset)
    then have "sum_amounts (map amount (filter (\<lambda>e. ?key e = k) expenses')) =
               sum_amounts (map amount (filter (\<lambda>e. ?key e = k) expenses))"
      by (simp only: sum_amounts_filter [OF assms(1)] sum_amounts_filter [OF ex'])
    then show ?thesis
      by (simp only: monthly_data_accumulate getitem_accumulate set_eq)
  qed
  from keys vals show ?thesis by blast
qed

theorem monthly_data_reordered_when_exact_witness:
  "exactly_summable (- 2)
     [spent 1 (Finite (25 / 2)) ''Food'' (on_day 2024 1 15),
      spent 3 (Finite (1 / 4)) ''Transport'' (on_day 2024 1 20)] \<and>
   mset [spent 3 (Finite (1 / 4)) ''Transport'' (on_day 2024 1 20),
         spent 1 (Finite (25 / 2)) ''Food'' (on_day 2024 1 15)] =
   mset [spent 1 (Finite (25 / 2)) ''Food'' (on_day 2024 1 15),
         spent 3 (Finite (1 / 4)) ''Transport'' (on_day 2024 1 20)] \<and>
   getitem (monthly_data
        [spent 3 (Finite (1 / 4)) ''Transport'' (on_day 2024 1 20),
         spent 1 (Finite (25 / 2)) ''Food'' (on_day 2024 1 15)]) ''2024-01'' =
   getitem (monthly_data
        [spent 1 (Finite (25 / 2)) ''Food'' (on_day 2024 1 15),
         spent 3 (Finite (1 / 4)) ''Transport'' (on_day 2024 1 20)]) ''2024-01''"
proof -
  have h: "exactly_summable (- 2)
     [spent 1 (Finite (25 / 2)) ''Food'' (on_day 2024 1 15),
      spent 3 (Finite (1 / 4)) ''Transport'' (on_day 2024 1 20)]"
    by (simp add: exactly_summable_def pow2_def)
  have p: "mset [spent 3 (Finite (1 / 4)) ''Transport'' (on_day 2024 1 20),
                 spent 1 (Finite (25 / 2)) ''Food'' (on_day 2024 1 15)] =
           mset [spent 1 (Finite (25 / 2)) ''Food'' (on_day 2024 1 15),
                 spent 3 (Finite (1 / 4)) ''Transport'' (on_day 2024 1 20)]"
    by simp
  from monthly_data_reordered_when_exact [OF h p] h p show ?thesis by blast
qed

text \<open>
  C8. The keys of \<open>categories\<close> are the categories of the expenses in the order of their
  first occurrence, and each category is mapped to the sum of the amounts of the expenses
  of that category (added from left to right, as the loop adds them).
\<close>

theorem categories_sum_per_category:
  "dict_keys (categories expenses) = first_occurrences (map category expenses) \<and>
   (\<forall>c \<in> set (map category expenses).
      getitem (categories expenses) c =
        Some (sum_amounts (map amount (filter (\<lambda>e. category e = c) expenses))))"
  by (simp add: categories_accumulate keys_accumulate getitem_accumulate)

theorem categories_sum_per_category_witness:
  "dict_keys (categories
     [spent 1 (Finite 100) ''Food'' (on_day 2024 1 15),
      spent 2 (Finite 50) ''Food'' (on_day 2024 2 1),
      spent 3 (Finite 30) ''Transport'' (on_day 2024 1 20)]) = [''Food'', ''Transport''] \<and>
   getitem (categories
     [spent 1 (Finite 100) ''Food'' (on_day 2024 1 15),
      spent 2 (Finite 50) ''Food'' (on_day 2024 2 1),
      spent 3 (Finite 30) ''Transport'' (on_day 2024 1 20)]) ''Food'' =
     Some (fadd (Finite 100) (Finite 50))"
  using categories_sum_per_category
    [of "[spent 1 (Finite 100) ''Food'' (on_day 2024 1 15),
          spent 2 (Finite 50) ''Food'' (on_day 2024 2 1),
          spent 3 (Finite 30) ''Transport'' (on_day 2024 1 20)]"]
  by simp

text \<open>
  C9. With no rows in the database the export holds the header row and nothing else.
\<close>

theorem export_of_no_records:
  "export_rows [] = [csv_header] \<and>
   export_csv [] = (Inr (SendFile [csv_header] ''expenses.csv'' ''text/csv''), [])"
  by (simp add: export_rows_def export_csv_def query_all_def)




end
